theory Spec2Isabelle
  imports Complex_Main "HOL-Library.AList" "HOL-Library.Multiset" "HOL-Library.Sublist"
begin

section \<open>The log analyzer: record extraction, aggregation, statistics, ranking\<close>

text \<open>
  This theory embeds the core of \<^verbatim>\<open>log_analyzer.py\<close>: the generator \<^verbatim>\<open>log_parser\<close>,
  the aggregation loop \<^verbatim>\<open>analyze_log\<close> and the statistics and ranking of
  \<^verbatim>\<open>count_stats\<close>.

  Conventions of the embedding.
  \<^item> Python's \<^verbatim>\<open>int\<close> is \<open>int\<close>. Python's \<^verbatim>\<open>float\<close> is modelled by the exact
    rationals \<open>rat\<close>: sums, quotients and comparisons are those of exact arithmetic, and
    rounding, infinities and NaN are outside the model.
  \<^item> A Python \<^verbatim>\<open>dict\<close> keeps its keys in insertion order, and \<^verbatim>\<open>count_stats\<close>
    depends on that order, so a dictionary is an association list. Assigning to a key
    that is present replaces its value in place; a new key goes to the end. This is
    \<open>AList.update\<close>; lookup is \<open>map_of\<close>.
  \<^item> Every exception of the source is a value of the type \<open>error\<close>; a function that can
    raise returns \<open>error + 'a\<close>, with \<open>Inl\<close> for the exception.
  \<^item> An iterator is a value of the type \<open>'a gen\<close>: the items it yields, ended either by
    normal exhaustion or by an exception.
\<close>

subsection \<open>Exceptions and iterators\<close>

datatype error =
    IndexError
  | ValueError
  | ZeroDivisionError
  | StatisticsError
  | RuntimeError

datatype 'a gen =
    Stop
  | Raise error
  | Yield 'a "'a gen"

text \<open>Iterating over a list: the items in order, then normal exhaustion.\<close>

fun iter :: "'a list \<Rightarrow> 'a gen" where
  "iter [] = Stop"
| "iter (x # xs) = Yield x (iter xs)"

subsection \<open>\<^verbatim>\<open>log_parser\<close>\<close>

text \<open>
  \<^verbatim>\<open>str.split(" ")\<close>: the string is cut at every single space character. Two adjacent
  spaces delimit an empty field, and the result always has at least one field. No other
  character (tab, newline) is a delimiter.
\<close>

fun split_sp :: "string \<Rightarrow> string list" where
  "split_sp [] = [[]]"
| "split_sp (c # cs) =
     (if c = CHR '' '' then [] # split_sp cs
      else case split_sp cs of
             w # ws \<Rightarrow> (c # w) # ws
           | [] \<Rightarrow> [[c]])"

text \<open>
  The body of the \<^verbatim>\<open>while True\<close> loop for one line that \<^verbatim>\<open>next(file)\<close> returned:
  \<^verbatim>\<open>log_row[7]\<close> raises IndexError on a row of fewer than eight fields, and
  \<^verbatim>\<open>float(log_row.pop())\<close> raises ValueError when the last field is not a number.
  The builtin \<^verbatim>\<open>float\<close> is a parameter: \<open>None\<close> stands for its ValueError.
\<close>

definition log_parser_row :: "(string \<Rightarrow> rat option) \<Rightarrow> string \<Rightarrow> error + (string \<times> rat)" where
  "log_parser_row float line =
     (let log_row = split_sp line in
      if length log_row \<le> 7 then Inl IndexError
      else
        let request_url = log_row ! 7 in
        case float (last log_row) of
          None \<Rightarrow> Inl ValueError
        | Some request_time \<Rightarrow> Inr (request_url, request_time))"

text \<open>
  The generator over the lines of the file. At the end of the file \<^verbatim>\<open>next(file)\<close>
  raises StopIteration inside the generator's body, and nothing catches it. With the
  \<^verbatim>\<open>generator_stop\<close> semantics (PEP 479; the only semantics from Python 3.7 on) the
  generator machinery turns it into RuntimeError. Without it (Python 3.6 and earlier,
  where \<^verbatim>\<open>generator_stop\<close> is a \<^verbatim>\<open>__future__\<close> import the source does not make) the
  StopIteration ends the generator. The flag is the first parameter.
\<close>

fun log_parser :: "bool \<Rightarrow> (string \<Rightarrow> rat option) \<Rightarrow> string list \<Rightarrow> (string \<times> rat) gen" where
  "log_parser generator_stop float [] = (if generator_stop then Raise RuntimeError else Stop)"
| "log_parser generator_stop float (line # file) =
     (case log_parser_row float line of
        Inl e \<Rightarrow> Raise e
      | Inr url_and_time \<Rightarrow> Yield url_and_time (log_parser generator_stop float file))"

subsection \<open>A decimal reading of \<^verbatim>\<open>float\<close>\<close>

text \<open>
  For concrete lines the parameter \<open>float\<close> is instantiated by \<open>float_decimal\<close>, which
  reads the plain decimal numerals that \<^verbatim>\<open>float\<close> accepts: optional surrounding
  whitespace, an optional sign, and digits with an optional fractional part. It is used
  only on such numerals. The general theorems below hold for every \<open>float\<close>.
\<close>

definition is_space :: "char \<Rightarrow> bool" where
  "is_space c = (c = CHR '' '' \<or> c = CHR 0x09 \<or> c = CHR 0x0A \<or> c = CHR 0x0B
                 \<or> c = CHR 0x0C \<or> c = CHR 0x0D)"

definition strip :: "string \<Rightarrow> string" where
  "strip s = rev (dropWhile is_space (rev (dropWhile is_space s)))"

definition digit_val :: "char \<Rightarrow> nat option" where
  "digit_val c = map_of (zip ''0123456789'' [0, 1, 2, 3, 4, 5, 6, 7, 8, 9]) c"

fun digits_val :: "nat \<Rightarrow> string \<Rightarrow> nat option" where
  "digits_val acc [] = Some acc"
| "digits_val acc (c # cs) =
     (case digit_val c of None \<Rightarrow> None | Some d \<Rightarrow> digits_val (10 * acc + d) cs)"

definition unsigned_decimal :: "string \<Rightarrow> rat option" where
  "unsigned_decimal s =
     (let ip = takeWhile (\<lambda>c. c \<noteq> CHR ''.'') s;
          rest = dropWhile (\<lambda>c. c \<noteq> CHR ''.'') s;
          fp = (if rest = [] then [] else tl rest)
      in if ip = [] \<and> fp = [] then None
         else case (digits_val 0 ip, digits_val 0 fp) of
                (Some i, Some f) \<Rightarrow> Some (of_nat i + of_nat f / 10 ^ length fp)
              | _ \<Rightarrow> None)"

definition float_decimal :: "string \<Rightarrow> rat option" where
  "float_decimal s =
     (case strip s of
        [] \<Rightarrow> None
      | c # cs \<Rightarrow>
          if c = CHR ''-'' then map_option uminus (unsigned_decimal cs)
          else if c = CHR ''+'' then unsigned_decimal cs
          else unsigned_decimal (c # cs))"

subsection \<open>\<^verbatim>\<open>analyze_log\<close>\<close>

record totals =
  total_requests :: int
  total_time :: rat

text \<open>
  The value stored per url, \<^verbatim>\<open>{"count": ..., "request_times": [...]}\<close>. The field
  \<^verbatim>\<open>count\<close> is named \<open>count_e\<close> here, and \<open>count_r\<close> in a row of the report.
\<close>

record count_and_times =
  count_e :: int
  request_times :: "rat list"

type_synonym urls = "(string \<times> count_and_times) list"

text \<open>One iteration of the \<^verbatim>\<open>for\<close> loop of \<^verbatim>\<open>analyze_log\<close>.\<close>

definition analyze_step :: "string \<times> rat \<Rightarrow> totals \<times> urls \<Rightarrow> totals \<times> urls" where
  "analyze_step url_and_time st =
     (let (request_url, request_time) = url_and_time;
          (totals, urls) = st;
          totals = totals\<lparr>total_requests := total_requests totals + 1\<rparr>;
          totals = totals\<lparr>total_time := total_time totals + request_time\<rparr>
      in case map_of urls request_url of
           Some e \<Rightarrow>
             (totals,
              AList.update request_url
                (e\<lparr>count_e := count_e e + 1,
                   request_times := request_times e @ [request_time]\<rparr>) urls)
         | None \<Rightarrow>
             (totals,
              AList.update request_url
                \<lparr>count_e = 1, request_times = [request_time]\<rparr> urls))"

text \<open>The loop: an exception of the iterator leaves \<^verbatim>\<open>analyze_log\<close> uncaught.\<close>

fun analyze_loop :: "(string \<times> rat) gen \<Rightarrow> totals \<times> urls \<Rightarrow> error + totals \<times> urls" where
  "analyze_loop Stop st = Inr st"
| "analyze_loop (Raise e) st = Inl e"
| "analyze_loop (Yield url_and_time parser) st = analyze_loop parser (analyze_step url_and_time st)"

definition analyze_log :: "(string \<times> rat) gen \<Rightarrow> error + totals \<times> urls" where
  "analyze_log parser =
     analyze_loop parser (\<lparr>total_requests = 0, total_time = 0\<rparr>, [])"

subsection \<open>\<^verbatim>\<open>count_stats\<close>\<close>

record report_row =
  url :: string
  count_r :: int
  count_perc :: rat
  time_sum :: rat
  time_perc :: rat
  time_avg :: rat
  time_max :: rat
  time_med :: rat

text \<open>The builtin \<^verbatim>\<open>sum\<close>: a left fold from 0.\<close>

definition py_sum :: "rat list \<Rightarrow> rat" where
  "py_sum xs = foldl (+) 0 xs"

text \<open>The builtin \<^verbatim>\<open>max\<close>: ValueError on an empty list, else the first largest item.\<close>

fun py_max :: "rat list \<Rightarrow> error + rat" where
  "py_max [] = Inl ValueError"
| "py_max (x # xs) = Inr (foldl (\<lambda>m y. if m < y then y else m) x xs)"

text \<open>
  \<^verbatim>\<open>statistics.median\<close> of the standard library: sort, then the middle item, or the
  mean of the two middle items; StatisticsError on empty data.
\<close>

definition statistics_median :: "rat list \<Rightarrow> error + rat" where
  "statistics_median xs =
     (let data = sort xs; n = length data in
      if n = 0 then Inl StatisticsError
      else if n mod 2 = 1 then Inr (data ! (n div 2))
      else let i = n div 2 in Inr ((data ! (i - 1) + data ! i) / 2))"

text \<open>
  The body of the \<^verbatim>\<open>for\<close> loop of \<^verbatim>\<open>count_stats\<close>, for one item of \<^verbatim>\<open>urls\<close>. The
  average divides by \<^verbatim>\<open>len(request_times)\<close>, which raises ZeroDivisionError on an
  empty list before \<^verbatim>\<open>max\<close> and \<^verbatim>\<open>median\<close> are reached.
\<close>

definition url_stats :: "totals \<Rightarrow> string \<times> count_and_times \<Rightarrow> error + report_row" where
  "url_stats totals item =
     (let (url, count_and_times) = item;
          total_requests = total_requests totals;
          total_time = total_time totals;
          count = count_e count_and_times;
          request_times = request_times count_and_times;
          time_sum = py_sum request_times
      in if length request_times = 0 then Inl ZeroDivisionError
         else
           let time_avg = time_sum / of_nat (length request_times) in
           case py_max request_times of
             Inl e \<Rightarrow> Inl e
           | Inr t_max \<Rightarrow>
               (case statistics_median request_times of
                  Inl e \<Rightarrow> Inl e
                | Inr t_med \<Rightarrow>
                    let count_perc = of_int (count * total_requests) / 100;
                        time_perc = time_sum * total_time / 100
                    in Inr \<lparr>url = url, count_r = count, count_perc = count_perc,
                            time_sum = time_sum, time_perc = time_perc,
                            time_avg = time_avg, time_max = t_max,
                            time_med = t_med\<rparr>))"

text \<open>The loop over \<^verbatim>\<open>urls.items()\<close>, appending one row per item.\<close>

fun stats_loop :: "totals \<Rightarrow> urls \<Rightarrow> report_row list \<Rightarrow> error + report_row list" where
  "stats_loop totals [] report = Inr report"
| "stats_loop totals (item # items) report =
     (case url_stats totals item of
        Inl e \<Rightarrow> Inl e
      | Inr row \<Rightarrow> stats_loop totals items (report @ [row]))"

text \<open>
  \<^verbatim>\<open>sorted(_report, key=..., reverse=True)\<close>. Python sorts stably in ascending order of
  the key; with \<^verbatim>\<open>reverse=True\<close> it reverses the list before and after that sort, so
  that items of equal key keep their original order.
\<close>

definition sorted_reverse :: "('a \<Rightarrow> int) \<Rightarrow> 'a list \<Rightarrow> 'a list" where
  "sorted_reverse key xs = rev (sort_key key (rev xs))"

text \<open>The slice \<^verbatim>\<open>xs[0:stop]\<close>: a negative \<^verbatim>\<open>stop\<close> counts from the end.\<close>

definition slice_to :: "'a list \<Rightarrow> int \<Rightarrow> 'a list" where
  "slice_to xs stop =
     (if 0 \<le> stop then take (nat stop) xs
      else take (length xs - nat (- stop)) xs)"

text \<open>The last two statements of \<^verbatim>\<open>count_stats\<close>: sort by count, keep the first rows.\<close>

definition final_stats :: "report_row list \<Rightarrow> int \<Rightarrow> report_row list" where
  "final_stats report report_size =
     (let sorted_report = sorted_reverse count_r report
      in slice_to sorted_report report_size)"

definition count_stats :: "totals \<Rightarrow> urls \<Rightarrow> int \<Rightarrow> error + report_row list" where
  "count_stats totals urls report_size =
     (case stats_loop totals urls [] of
        Inl e \<Rightarrow> Inl e
      | Inr report \<Rightarrow> Inr (final_stats report report_size))"

text \<open>The two calls of \<^verbatim>\<open>main\<close>: \<^verbatim>\<open>analyze_log\<close>, then \<^verbatim>\<open>count_stats\<close> on its result.\<close>

definition analyze_and_count :: "(string \<times> rat) gen \<Rightarrow> int \<Rightarrow> error + report_row list" where
  "analyze_and_count parser report_size =
     (case analyze_log parser of
        Inl e \<Rightarrow> Inl e
      | Inr (totals, urls) \<Rightarrow> count_stats totals urls report_size)"

section \<open>Notions of the specification\<close>

text \<open>
  The invariant of the aggregate map: for every resource, \<open>count\<close> is the number of its
  samples.
\<close>

definition urls_inv :: "urls \<Rightarrow> bool" where
  "urls_inv urls = list_all (\<lambda>(k, e). count_e e = int (length (request_times e))) urls"

text \<open>The distinct items of a list, in the order of their first occurrence.\<close>

fun first_seen :: "'a list \<Rightarrow> 'a list" where
  "first_seen [] = []"
| "first_seen (x # xs) = x # removeAll x (first_seen xs)"

text \<open>A line made of fields: the fields joined by single spaces.\<close>

fun join_sp :: "string list \<Rightarrow> string" where
  "join_sp [] = []"
| "join_sp [w] = w"
| "join_sp (w # ws) = w @ CHR '' '' # join_sp ws"

text \<open>
  The whitespace-delimited tokens of a line, in the usual sense: the maximal runs of
  characters that are not whitespace. The line is cut at every whitespace character and
  the empty pieces are dropped.
\<close>

fun ws_split :: "string \<Rightarrow> string list" where
  "ws_split [] = [[]]"
| "ws_split (c # cs) =
     (if is_space c then [] # ws_split cs
      else case ws_split cs of
             w # ws \<Rightarrow> (c # w) # ws
           | [] \<Rightarrow> [[c]])"

definition ws_tokens :: "string \<Rightarrow> string list" where
  "ws_tokens line = filter (\<lambda>w. w \<noteq> []) (ws_split line)"

text \<open>
  A line in the format that the head of \<^verbatim>\<open>log_analyzer.py\<close> documents (two spaces
  follow \<^verbatim>\<open>$remote_addr\<close>), ended by its newline.
\<close>

definition sample_fields :: "string list" where
  "sample_fields =
     [''1.196.116.32'', [], ''-'', ''-'', ''[29/Jun/2017:03:50:22'', ''+0300]'',
      CHR 0x22 # ''GET'', ''/api/v2/banner/25019354'', ''HTTP/1.1'' @ [CHR 0x22],
      ''200'', ''927'', [CHR 0x22, CHR ''-'', CHR 0x22],
      CHR 0x22 # ''Lynx/2.8.8dev.9'' @ [CHR 0x22],
      [CHR 0x22, CHR ''-'', CHR 0x22],
      CHR 0x22 # ''1498697422-2190034393-4708-9752759'' @ [CHR 0x22],
      CHR 0x22 # ''dc7161be3'' @ [CHR 0x22],
      ''0.390'' @ [CHR 0x0A]]"

definition sample_line :: string where
  "sample_line = join_sp sample_fields"

text \<open>A line whose request has no target: its eighth field is empty.\<close>

definition no_target_line :: string where
  "no_target_line =
     join_sp [''1.196.116.32'', [], ''-'', ''-'', ''[29/Jun/2017:03:50:22'', ''+0300]'',
              CHR 0x22 # ''GET'', [], ''HTTP/1.1'' @ [CHR 0x22], ''400'', ''0'',
              ''0.001'' @ [CHR 0x0A]]"

text \<open>A line of three fields only.\<close>

definition short_line :: string where
  "short_line = ''1.196.116.32 - -'' @ [CHR 0x0A]"

text \<open>What the loop of \<^verbatim>\<open>analyze_log\<close> conserves: the totals are the sums over the map.\<close>

definition conserved :: "totals \<times> urls \<Rightarrow> bool" where
  "conserved st \<longleftrightarrow>
     sum_list (map (\<lambda>(k, e). count_e e) (snd st)) = total_requests (fst st)
   \<and> sum_list (map (\<lambda>(k, e). sum_list (request_times e)) (snd st)) = total_time (fst st)"

text \<open>The invariant together with the fact that no resource has an empty sample list.\<close>

definition well_formed :: "urls \<Rightarrow> bool" where
  "well_formed U =
     list_all (\<lambda>(k, e). count_e e = int (length (request_times e))
                        \<and> request_times e \<noteq> []) U"

text \<open>The two rows of the end-to-end scenario.\<close>

definition row_a :: report_row where
  "row_a = \<lparr>url = ''/a'', count_r = 2, count_perc = 6/100, time_sum = 4/10,
             time_perc = 24/10000, time_avg = 2/10, time_max = 3/10, time_med = 2/10\<rparr>"

definition row_b :: report_row where
  "row_b = \<lparr>url = ''/b'', count_r = 1, count_perc = 3/100, time_sum = 2/10,
             time_perc = 12/10000, time_avg = 2/10, time_max = 2/10, time_med = 2/10\<rparr>"

section \<open>Properties\<close>

subsection \<open>The builtins\<close>

lemma foldl_add_sum_list: "foldl (+) a xs = a + sum_list (xs :: rat list)"
  by (induction xs arbitrary: a) (simp_all add: add.assoc)

lemma py_sum_sum_list: "py_sum xs = sum_list xs"
  by (simp add: py_sum_def foldl_add_sum_list)

lemma foldl_max_Max:
  "foldl (\<lambda>m y. if m < y then y else m) x xs = Max (insert (x :: rat) (set xs))"
proof (induction xs arbitrary: x)
  case Nil
  show ?case by simp
next
  case (Cons a xs)
  have "(if x < a then a else x) = max x a" by (simp add: max_def)
  moreover have "Max (insert (max x a) (set xs)) = Max (insert x (insert a (set xs)))"
    by (cases "set xs = {}") (simp_all add: max.assoc)
  ultimately show ?case using Cons.IH [of "max x a"] by simp
qed

lemma py_max_Max: "xs \<noteq> [] \<Longrightarrow> py_max xs = Inr (Max (set xs))"
  by (cases xs) (simp_all add: foldl_max_Max)

text \<open>A list has one sorted arrangement only, the one \<open>sort\<close> computes.\<close>

lemma sort_unique:
  fixes ys :: "rat list"
  assumes "sorted ys" and "mset ys = mset xs"
  shows "sort xs = ys"
  using assms properties_for_sort [of ys xs] by simp

lemma statistics_median_sorted:
  assumes "xs \<noteq> []" and "sorted ys" and "mset ys = mset xs"
  shows "statistics_median xs =
     Inr (if odd (length ys) then ys ! (length ys div 2)
          else (ys ! (length ys div 2 - 1) + ys ! (length ys div 2)) / 2)"
proof -
  have s: "sort xs = ys" using assms(2,3) by (rule sort_unique)
  have "ys \<noteq> []" using assms(1,3) by auto
  then show ?thesis
    by (simp add: statistics_median_def s Let_def odd_iff_mod_2_eq_one)
qed

lemma statistics_median_sort:
  "xs \<noteq> [] \<Longrightarrow> statistics_median xs =
     Inr (if odd (length (sort xs)) then sort xs ! (length (sort xs) div 2)
          else (sort xs ! (length (sort xs) div 2 - 1)
                + sort xs ! (length (sort xs) div 2)) / 2)"
  by (rule statistics_median_sorted) simp_all

lemma url_stats_row:
  "request_times e \<noteq> [] \<Longrightarrow>
   \<exists>row. url_stats T (k, e) = Inr row \<and> url row = k \<and> count_r row = count_e e"
  by (simp add: url_stats_def Let_def py_max_Max statistics_median_sort del: length_sort)

text \<open>On an empty sample list the division raises first.\<close>

lemma url_stats_no_samples:
  "request_times e = [] \<Longrightarrow> url_stats T (k, e) = Inl ZeroDivisionError"
  by (simp add: url_stats_def Let_def)

subsection \<open>The end-to-end scenario\<close>

lemma analyze_scenario:
  "analyze_log (iter [(''/a'', 1/10), (''/b'', 2/10), (''/a'', 3/10)]) =
     Inr (\<lparr>total_requests = 3, total_time = 3/5\<rparr>,
          [(''/a'', \<lparr>count_e = 2, request_times = [1/10, 3/10]\<rparr>),
           (''/b'', \<lparr>count_e = 1, request_times = [1/5]\<rparr>)])"
  by (simp add: analyze_log_def analyze_step_def)

text \<open>
  Claim C1. The records \<open>(/a, 0.1)\<close>, \<open>(/b, 0.2)\<close>, \<open>(/a, 0.3)\<close> with report size 10 give
  a report of exactly two rows: \<open>/a\<close> with count 2, time sum 0.4, maximum 0.3 and
  median 0.2, then \<open>/b\<close> with count 1, time sum 0.2, maximum 0.2 and median 0.2.
  The decimal fractions are exact rationals here.
\<close>

theorem end_to_end_scenario:
  "analyze_and_count (iter [(''/a'', 1/10), (''/b'', 2/10), (''/a'', 3/10)]) 10 =
     Inr [\<lparr>url = ''/a'', count_r = 2, count_perc = 6/100, time_sum = 4/10,
           time_perc = 24/10000, time_avg = 2/10, time_max = 3/10, time_med = 2/10\<rparr>,
          \<lparr>url = ''/b'', count_r = 1, count_perc = 3/100, time_sum = 2/10,
           time_perc = 12/10000, time_avg = 2/10, time_max = 2/10, time_med = 2/10\<rparr>]"
  unfolding analyze_and_count_def analyze_scenario
  by (simp add: count_stats_def url_stats_def py_sum_def statistics_median_def
      final_stats_def sorted_reverse_def slice_to_def Let_def)

subsection \<open>The statistics of one resource\<close>

text \<open>
  Claim C2. For an aggregate whose count is at least 1 and is the number of its samples
  (the invariant of the data model), the statistics are: the time sum is the sum of the
  samples; the average is the time sum divided by the count; the maximum is the largest
  sample; the median is the middle item of the sorted samples for an odd count and the
  mean of the two middle items for an even count, whatever sorted arrangement \<open>ys\<close> of
  the samples is taken; the count share is \<open>count * total_requests / 100\<close> and the time
  share is \<open>time_sum * total_time / 100\<close>.
\<close>

theorem url_stats_formulas:
  assumes "1 \<le> count_e e" and "count_e e = int (length (request_times e))"
  shows "\<exists>row. url_stats totals (u, e) = Inr row
           \<and> url row = u
           \<and> count_r row = count_e e
           \<and> time_sum row = sum_list (request_times e)
           \<and> time_avg row = time_sum row / of_int (count_e e)
           \<and> time_max row = Max (set (request_times e))
           \<and> (\<forall>ys. sorted ys \<and> mset ys = mset (request_times e) \<longrightarrow>
                 time_med row =
                   (if odd (length ys) then ys ! (length ys div 2)
                    else (ys ! (length ys div 2 - 1) + ys ! (length ys div 2)) / 2))
           \<and> count_perc row = of_int (count_e e * total_requests totals) / 100
           \<and> time_perc row = time_sum row * total_time totals / 100"
proof -
  have ne: "request_times e \<noteq> []" using assms by auto
  have u: "\<And>ys. sorted ys \<and> mset ys = mset (request_times e) \<Longrightarrow> sort (request_times e) = ys"
    by (simp add: sort_unique)
  show ?thesis
    using ne u
    by (simp add: url_stats_def Let_def py_sum_sum_list py_max_Max statistics_median_sort
        assms(2) del: length_sort)
qed

theorem url_stats_formulas_witness:
  "1 \<le> count_e \<lparr>count_e = 2, request_times = [3/10, 1/10]\<rparr>
   \<and> count_e \<lparr>count_e = 2, request_times = [3/10, 1/10]\<rparr> =
       int (length (request_times \<lparr>count_e = 2, request_times = [3/10, 1/10]\<rparr>))
   \<and> url_stats \<lparr>total_requests = 3, total_time = 3/5\<rparr>
        (''/a'', \<lparr>count_e = 2, request_times = [3/10, 1/10]\<rparr>) = Inr row_a"
proof -
  let ?e = "\<lparr>count_e = 2, request_times = [3/10, 1/10 :: rat]\<rparr>"
  let ?T = "\<lparr>total_requests = 3, total_time = 3/5\<rparr>"
  have h1: "1 \<le> count_e ?e" by simp
  have h2: "count_e ?e = int (length (request_times ?e))" by simp
  from url_stats_formulas [OF h1 h2, of ?T "''/a''"] obtain row where
    r: "url_stats ?T (''/a'', ?e) = Inr row"
    and f: "url row = ''/a''" "count_r row = 2" "time_sum row = 2/5" "time_avg row = 1/5"
      "time_max row = 3/10" "count_perc row = 3/50" "time_perc row = 3/1250"
    and m: "\<forall>ys. sorted ys \<and> mset ys = mset [3/10, 1/10 :: rat] \<longrightarrow>
              time_med row =
                (if odd (length ys) then ys ! (length ys div 2)
                 else (ys ! (length ys div 2 - 1) + ys ! (length ys div 2)) / 2)"
    by auto
  have "sorted [1/10, 3/10 :: rat] \<and> mset [1/10, 3/10 :: rat] = mset [3/10, 1/10]"
    by simp
  with m have "time_med row =
      (if odd (length [1/10, 3/10 :: rat]) then [1/10, 3/10] ! (length [1/10, 3/10 :: rat] div 2)
       else ([1/10, 3/10] ! (length [1/10, 3/10 :: rat] div 2 - 1)
             + [1/10, 3/10] ! (length [1/10, 3/10 :: rat] div 2)) / 2)"
    by blast
  then have "time_med row = 1/5" by simp
  with f have "row = row_a" by (cases row) (simp add: row_a_def)
  with r h1 h2 show ?thesis by simp
qed

subsection \<open>The rank selector\<close>

lemma mset_sorted_reverse: "mset (sorted_reverse key xs) = mset xs"
  by (simp add: sorted_reverse_def)

lemma set_sorted_reverse: "set (sorted_reverse key xs) = set xs"
  by (simp add: sorted_reverse_def)

lemma length_sorted_reverse: "length (sorted_reverse key xs) = length xs"
  by (simp add: sorted_reverse_def)

lemma sorted_reverse_descending:
  "sorted_wrt (\<lambda>a b. key b \<le> key a) (sorted_reverse key xs)"
proof -
  have "sorted (map key (sort_key key (rev xs)))" by (rule sorted_sort_key)
  then have "sorted_wrt (\<lambda>a b. key a \<le> key b) (sort_key key (rev xs))"
    by (simp add: sorted_map)
  then show ?thesis by (simp add: sorted_reverse_def sorted_wrt_rev)
qed

text \<open>The sort is stable: the items of one key keep their order.\<close>

lemma sorted_reverse_stable:
  "filter (\<lambda>y. key y = k) (sorted_reverse key xs) = filter (\<lambda>y. key y = k) xs"
  by (simp add: sorted_reverse_def rev_filter [symmetric] sort_key_stable)

lemma take_descending_closed:
  assumes d: "sorted_wrt (\<lambda>a b. key b \<le> (key a :: int)) S"
    and x: "x \<in> set S" and y: "y \<in> set (take n S)" and lt: "key y < key x"
  shows "x \<in> set (take n S)"
proof (rule ccontr)
  assume nx: "x \<notin> set (take n S)"
  have "set S = set (take n S) \<union> set (drop n S)"
    by (metis append_take_drop_id set_append)
  with x nx have xd: "x \<in> set (drop n S)" by auto
  have "sorted_wrt (\<lambda>a b. key b \<le> key a) (take n S @ drop n S)" using d by simp
  then have "key x \<le> key y" using xd y unfolding sorted_wrt_append by blast
  with lt show False by simp
qed

lemma slice_to_take: "\<exists>m. slice_to xs n = take m xs"
  by (auto simp: slice_to_def)

text \<open>
  Claim C3. For a positive report size \<open>N\<close> the rank selector returns rows sorted by
  count in descending order, at most \<open>N\<close> of them, all taken from its input; it omits no
  row whose count is strictly greater than the count of a row it returns; and an input
  of fewer than \<open>N\<close> rows is returned whole, as the same multiset of rows.
\<close>

theorem final_stats_top_n:
  assumes "0 < N"
  shows "sorted_wrt (\<lambda>a b. count_r b \<le> count_r a) (final_stats report N)
       \<and> int (length (final_stats report N)) \<le> N
       \<and> mset (final_stats report N) \<subseteq># mset report
       \<and> (\<forall>x \<in> set report. \<forall>y \<in> set (final_stats report N).
            count_r y < count_r x \<longrightarrow> x \<in> set (final_stats report N))
       \<and> (int (length report) < N \<longrightarrow> mset (final_stats report N) = mset report)"
proof -
  let ?S = "sorted_reverse count_r report"
  have f: "final_stats report N = take (nat N) ?S"
    using assms by (simp add: final_stats_def slice_to_def)
  have d: "sorted_wrt (\<lambda>a b. count_r b \<le> count_r a) ?S"
    by (rule sorted_reverse_descending)
  have 1: "sorted_wrt (\<lambda>a b. count_r b \<le> count_r a) (final_stats report N)"
    unfolding f using d by (rule sorted_wrt_take)
  have 2: "int (length (final_stats report N)) \<le> N"
    unfolding f using assms by simp
  have "mset (take (nat N) ?S) \<subseteq># mset (take (nat N) ?S @ drop (nat N) ?S)"
    unfolding mset_append by simp
  then have 3: "mset (final_stats report N) \<subseteq># mset report"
    unfolding f by (simp add: mset_sorted_reverse)
  have 4: "\<forall>x \<in> set report. \<forall>y \<in> set (final_stats report N).
            count_r y < count_r x \<longrightarrow> x \<in> set (final_stats report N)"
    unfolding f using take_descending_closed [OF d]
    by (simp add: set_sorted_reverse)
  have 5: "int (length report) < N \<longrightarrow> mset (final_stats report N) = mset report"
    unfolding f by (simp add: length_sorted_reverse mset_sorted_reverse)
  from 1 2 3 4 5 show ?thesis by blast
qed

theorem final_stats_top_n_witness:
  "(0::int) < 1
   \<and> row_a \<in> set [row_b, row_a] \<and> count_r row_b < count_r row_a
   \<and> final_stats [row_b, row_a] 1 = [row_a]
   \<and> (0::int) < 3 \<and> int (length [row_b, row_a]) < 3
   \<and> mset (final_stats [row_b, row_a] 3) = mset [row_b, row_a]"
proof -
  have h1: "(0::int) < 1" by simp
  have h3: "(0::int) < 3" by simp
  have l: "int (length [row_b, row_a]) < 3" by simp
  have c: "count_r row_b < count_r row_a" by (simp add: row_a_def row_b_def)
  have e: "final_stats [row_b, row_a] 1 = [row_a]"
    by (simp add: final_stats_def sorted_reverse_def slice_to_def row_a_def row_b_def)
  from final_stats_top_n [OF h1, of "[row_b, row_a]"]
  have "int (length (final_stats [row_b, row_a] 1)) \<le> 1" by blast
  moreover from final_stats_top_n [OF h3, of "[row_b, row_a]"] l
  have "mset (final_stats [row_b, row_a] 3) = mset [row_b, row_a]" by blast
  ultimately show ?thesis using h1 h3 l c e by simp
qed

subsection \<open>The aggregation loop\<close>

text \<open>Over a list the loop ends normally: it is the left fold of its step.\<close>

lemma analyze_loop_iter:
  "analyze_loop (iter rs) st = Inr (foldl (\<lambda>s r. analyze_step r s) st rs)"
  by (induction rs arbitrary: st) simp_all

lemma analyze_log_iter:
  "analyze_log (iter rs) =
     Inr (fst (foldl (\<lambda>s r. analyze_step r s) (\<lparr>total_requests = 0, total_time = 0\<rparr>, []) rs),
          snd (foldl (\<lambda>s r. analyze_step r s) (\<lparr>total_requests = 0, total_time = 0\<rparr>, []) rs))"
  by (simp add: analyze_log_def analyze_loop_iter)

lemma analyze_step_totals:
  "fst (analyze_step (k, t) (T, U)) =
     \<lparr>total_requests = total_requests T + 1, total_time = total_time T + t\<rparr>"
  by (cases T) (simp add: analyze_step_def Let_def split: option.split)

lemma entry_update:
  "(e :: count_and_times)\<lparr>count_e := c, request_times := ts\<rparr> =
     \<lparr>count_e = c, request_times = ts\<rparr>"
  by (cases e) simp

lemma analyze_step_urls:
  "snd (analyze_step (k, t) (T, U)) =
     (case map_of U k of
        Some e \<Rightarrow> AList.update k \<lparr>count_e = count_e e + 1,
                                  request_times = request_times e @ [t]\<rparr> U
      | None \<Rightarrow> AList.update k \<lparr>count_e = 1, request_times = [t]\<rparr> U)"
  by (simp add: analyze_step_def Let_def entry_update split: option.split)

lemma analyze_step_keys:
  "map fst (snd (analyze_step (k, t) (T, U))) =
     (if k \<in> set (map fst U) then map fst U else map fst U @ [k])"
  by (simp add: analyze_step_urls AList.update_keys split: option.split)

lemma sum_list_update:
  fixes g :: "'k \<times> 'v \<Rightarrow> 'a::ab_group_add"
  shows "sum_list (map g (AList.update k v U)) =
     (case map_of U k of
        None \<Rightarrow> sum_list (map g U) + g (k, v)
      | Some e \<Rightarrow> sum_list (map g U) - g (k, e) + g (k, v))"
  by (induction U) (auto simp: algebra_simps split: option.split)

lemma list_all_update:
  "list_all P U \<Longrightarrow> P (k, v) \<Longrightarrow> list_all P (AList.update k v U)"
  by (induction U) auto

lemma map_of_list_all: "list_all P U \<Longrightarrow> map_of U k = Some e \<Longrightarrow> P (k, e)"
  by (metis list_all_iff map_of_SomeD)

lemma conserved_step: "conserved st \<Longrightarrow> conserved (analyze_step r st)"
proof -
  assume c: "conserved st"
  obtain k t where r: "r = (k, t)" by (cases r)
  obtain T U where st: "st = (T, U)" by (cases st)
  show ?thesis
    using c unfolding conserved_def r st analyze_step_totals analyze_step_urls
    by (simp add: sum_list_update split: option.split)
qed

lemma conserved_foldl:
  "conserved st \<Longrightarrow> conserved (foldl (\<lambda>s r. analyze_step r s) st rs)"
  by (induction rs arbitrary: st) (simp_all add: conserved_step)

lemma well_formed_step: "well_formed U \<Longrightarrow> well_formed (snd (analyze_step (k, t) (T, U)))"
  unfolding well_formed_def analyze_step_urls
  by (auto split: option.split intro!: list_all_update dest: map_of_list_all)

lemma urls_inv_step: "urls_inv U \<Longrightarrow> urls_inv (snd (analyze_step (k, t) (T, U)))"
  unfolding urls_inv_def analyze_step_urls
  by (auto split: option.split intro!: list_all_update dest: map_of_list_all)

lemma well_formed_foldl:
  "well_formed (snd st) \<Longrightarrow> well_formed (snd (foldl (\<lambda>s r. analyze_step r s) st rs))"
proof (induction rs arbitrary: st)
  case Nil
  then show ?case by simp
next
  case (Cons r rs)
  obtain k t where r: "r = (k, t)" by (cases r)
  obtain T U where st: "st = (T, U)" by (cases st)
  have "well_formed (snd (analyze_step r st))"
    using Cons.prems unfolding r st by (simp add: well_formed_step)
  then show ?case using Cons.IH by simp
qed

lemma well_formed_urls_inv: "well_formed U \<Longrightarrow> urls_inv U"
  unfolding well_formed_def urls_inv_def list_all_iff by auto

text \<open>The keys of the map are the resources in the order of their first observation.\<close>

lemma filter_removeAll_absorb:
  "\<not> P k \<Longrightarrow> filter P (removeAll k xs) = filter P xs"
  by (induction xs) auto

lemma filter_removeAll_conj:
  "filter (\<lambda>x. x \<noteq> k \<and> P x) xs = filter P (removeAll k xs)"
  by (induction xs) auto

lemma keys_foldl:
  "map fst (snd (foldl (\<lambda>s r. analyze_step r s) (T, U) rs)) =
     map fst U @ filter (\<lambda>k. k \<notin> set (map fst U)) (first_seen (map fst rs))"
proof (induction rs arbitrary: T U)
  case Nil
  show ?case by simp
next
  case (Cons r rs)
  obtain k t where r: "r = (k, t)" by (cases r)
  obtain T' U' where s: "analyze_step (k, t) (T, U) = (T', U')"
    by (cases "analyze_step (k, t) (T, U)")
  have ks: "map fst U' = (if k \<in> set (map fst U) then map fst U else map fst U @ [k])"
    using analyze_step_keys [of k t T U] by (simp add: s)
  have "map fst (snd (foldl (\<lambda>s r. analyze_step r s) (T, U) (r # rs))) =
        map fst U' @ filter (\<lambda>k. k \<notin> set (map fst U')) (first_seen (map fst rs))"
    using Cons.IH [of T' U'] by (simp add: r s)
  also have "\<dots> = map fst U @ filter (\<lambda>k. k \<notin> set (map fst U)) (first_seen (map fst (r # rs)))"
  proof (cases "k \<in> set (map fst U)")
    case True
    then show ?thesis
      by (simp add: ks r filter_removeAll_absorb)
  next
    case False
    have "filter (\<lambda>x. x \<noteq> k \<and> x \<notin> set (map fst U)) (first_seen (map fst rs)) =
          filter (\<lambda>x. x \<notin> set (map fst U)) (removeAll k (first_seen (map fst rs)))"
      by (rule filter_removeAll_conj)
    with False show ?thesis
      by (simp add: ks r conj_commute)
  qed
  finally show ?case .
qed

lemma keys_first_seen:
  "map fst (snd (foldl (\<lambda>s r. analyze_step r s) (T, []) rs)) = first_seen (map fst rs)"
  using keys_foldl [of T "[]" rs] by simp

lemma set_first_seen: "set (first_seen xs) = set xs"
  by (induction xs) auto

lemma distinct_first_seen: "distinct (first_seen xs)"
  by (induction xs) (simp_all add: distinct_removeAll)

text \<open>
  Claim C4. For every finite sequence of records the aggregator returns totals and a
  map, each resource being one entry of the map, such that the counts of the entries
  add up to the total request count and the sums of their samples add up to the total
  elapsed time.
\<close>

theorem conservation:
  "\<exists>totals urls. analyze_log (iter rs) = Inr (totals, urls)
     \<and> distinct (map fst urls)
     \<and> sum_list (map (\<lambda>(k, e). count_e e) urls) = total_requests totals
     \<and> sum_list (map (\<lambda>(k, e). sum_list (request_times e)) urls) = total_time totals"
proof -
  let ?st = "foldl (\<lambda>s r. analyze_step r s) (\<lparr>total_requests = 0, total_time = 0\<rparr>, []) rs"
  have "conserved (\<lparr>total_requests = 0, total_time = 0\<rparr>, [])"
    by (simp add: conserved_def)
  then have "conserved ?st" by (rule conserved_foldl)
  moreover have "analyze_log (iter rs) = Inr (fst ?st, snd ?st)"
    by (rule analyze_log_iter)
  moreover have "distinct (map fst (snd ?st))"
    by (simp add: keys_first_seen distinct_first_seen)
  ultimately show ?thesis unfolding conserved_def by blast
qed

text \<open>
  Claim C5. The count of every resource in the map is the number of its samples: this
  holds of the empty map, every step of the aggregator keeps it, and so it holds of the
  map returned for any sequence of records (and of any prefix of one). A step on a
  resource that is absent creates the entry with count 1 and the one sample; a step on
  a resource that is present adds 1 to its count and appends the one sample; the
  entries of the other resources do not change.
\<close>

theorem count_is_number_of_samples:
  "urls_inv []
   \<and> (urls_inv urls \<longrightarrow> urls_inv (snd (analyze_step (k, t) (totals, urls))))
   \<and> (map_of urls k = None \<longrightarrow>
        map_of (snd (analyze_step (k, t) (totals, urls))) k =
          Some \<lparr>count_e = 1, request_times = [t]\<rparr>)
   \<and> (map_of urls k = Some e \<longrightarrow>
        map_of (snd (analyze_step (k, t) (totals, urls))) k =
          Some \<lparr>count_e = count_e e + 1, request_times = request_times e @ [t]\<rparr>)
   \<and> (k' \<noteq> k \<longrightarrow> map_of (snd (analyze_step (k, t) (totals, urls))) k' = map_of urls k')
   \<and> (\<exists>totals' urls'. analyze_log (iter rs) = Inr (totals', urls') \<and> urls_inv urls')"
proof -
  let ?st = "foldl (\<lambda>s r. analyze_step r s) (\<lparr>total_requests = 0, total_time = 0\<rparr>, []) rs"
  have 1: "urls_inv []" by (simp add: urls_inv_def)
  have 2: "urls_inv urls \<longrightarrow> urls_inv (snd (analyze_step (k, t) (totals, urls)))"
    by (simp add: urls_inv_step)
  have 3: "map_of urls k = None \<longrightarrow>
        map_of (snd (analyze_step (k, t) (totals, urls))) k =
          Some \<lparr>count_e = 1, request_times = [t]\<rparr>"
    by (simp add: analyze_step_urls AList.update_conv')
  have 4: "map_of urls k = Some e \<longrightarrow>
        map_of (snd (analyze_step (k, t) (totals, urls))) k =
          Some \<lparr>count_e = count_e e + 1, request_times = request_times e @ [t]\<rparr>"
    by (simp add: analyze_step_urls AList.update_conv')
  have 5: "k' \<noteq> k \<longrightarrow> map_of (snd (analyze_step (k, t) (totals, urls))) k' = map_of urls k'"
    by (simp add: analyze_step_urls AList.update_conv' split: option.split)
  have "well_formed (snd ?st)" by (rule well_formed_foldl) (simp add: well_formed_def)
  then have "urls_inv (snd ?st)" by (rule well_formed_urls_inv)
  moreover have "analyze_log (iter rs) = Inr (fst ?st, snd ?st)"
    by (rule analyze_log_iter)
  ultimately have 6: "\<exists>totals' urls'. analyze_log (iter rs) = Inr (totals', urls') \<and> urls_inv urls'"
    by blast
  from 1 2 3 4 5 6 show ?thesis by blast
qed

theorem count_is_number_of_samples_witness:
  "urls_inv [(''/a'', \<lparr>count_e = 1, request_times = [1/10]\<rparr>)]
   \<and> map_of [(''/a'', \<lparr>count_e = 1, request_times = [1/10]\<rparr>)] ''/a'' =
       Some \<lparr>count_e = 1, request_times = [1/10]\<rparr>
   \<and> map_of (snd (analyze_step (''/a'', 3/10)
        (\<lparr>total_requests = 1, total_time = 1/10\<rparr>,
         [(''/a'', \<lparr>count_e = 1, request_times = [1/10]\<rparr>)]))) ''/a'' =
       Some \<lparr>count_e = 2, request_times = [1/10, 3/10]\<rparr>
   \<and> urls_inv (snd (analyze_step (''/a'', 3/10)
        (\<lparr>total_requests = 1, total_time = 1/10\<rparr>,
         [(''/a'', \<lparr>count_e = 1, request_times = [1/10]\<rparr>)])))
   \<and> map_of [(''/a'', \<lparr>count_e = 1, request_times = [1/10]\<rparr>)] ''/b'' = None
   \<and> map_of (snd (analyze_step (''/b'', 1/5)
        (\<lparr>total_requests = 1, total_time = 1/10\<rparr>,
         [(''/a'', \<lparr>count_e = 1, request_times = [1/10]\<rparr>)]))) ''/b'' =
       Some \<lparr>count_e = 1, request_times = [1/5]\<rparr>
   \<and> ''/a'' \<noteq> ''/b''
   \<and> map_of (snd (analyze_step (''/b'', 1/5)
        (\<lparr>total_requests = 1, total_time = 1/10\<rparr>,
         [(''/a'', \<lparr>count_e = 1, request_times = [1/10]\<rparr>)]))) ''/a'' =
       Some \<lparr>count_e = 1, request_times = [1/10]\<rparr>"
proof -
  let ?E = "\<lparr>count_e = 1, request_times = [1/10 :: rat]\<rparr>"
  let ?U = "[(''/a'', ?E)]"
  let ?T = "\<lparr>total_requests = 1, total_time = 1/10\<rparr>"
  have i: "urls_inv ?U" by (simp add: urls_inv_def)
  have a: "map_of ?U ''/a'' = Some ?E" by simp
  have b: "map_of ?U ''/b'' = None" by simp
  have n: "''/a'' \<noteq> ''/b''" by simp
  note p = count_is_number_of_samples
    [where urls = ?U and k = "''/a''" and t = "3/10" and totals = ?T and e = ?E]
  note q = count_is_number_of_samples
    [where urls = ?U and k = "''/b''" and t = "1/5" and totals = ?T and k' = "''/a''"]
  from p i have 1: "urls_inv (snd (analyze_step (''/a'', 3/10) (?T, ?U)))" by blast
  from p a have 2: "map_of (snd (analyze_step (''/a'', 3/10) (?T, ?U))) ''/a'' =
      Some \<lparr>count_e = count_e ?E + 1, request_times = request_times ?E @ [3/10]\<rparr>"
    by blast
  from q b have 3: "map_of (snd (analyze_step (''/b'', 1/5) (?T, ?U))) ''/b'' =
      Some \<lparr>count_e = 1, request_times = [1/5]\<rparr>"
    by blast
  from q n have 4: "map_of (snd (analyze_step (''/b'', 1/5) (?T, ?U))) ''/a'' =
      map_of ?U ''/a''"
    by blast
  from i a b n 1 2 3 4 show ?thesis by simp
qed

subsection \<open>Ties in the ranking\<close>

lemma stats_loop_rows:
  "list_all (\<lambda>(k, e). request_times e \<noteq> []) items \<Longrightarrow>
   \<exists>rows. stats_loop T items acc = Inr (acc @ rows) \<and> map url rows = map fst items"
proof (induction items arbitrary: acc)
  case Nil
  then show ?case by simp
next
  case (Cons item items)
  obtain k e where i: "item = (k, e)" by (cases item)
  from Cons.prems have ne: "request_times e \<noteq> []" by (simp add: i)
  then obtain row where row: "url_stats T (k, e) = Inr row" "url row = k"
    using url_stats_row by blast
  from Cons.prems have "list_all (\<lambda>(k, e). request_times e \<noteq> []) items" by simp
  from Cons.IH [OF this, of "acc @ [row]"] obtain rows where
    "stats_loop T items (acc @ [row]) = Inr ((acc @ [row]) @ rows)"
    "map url rows = map fst items"
    by blast
  then have "stats_loop T (item # items) acc = Inr (acc @ (row # rows))
             \<and> map url (row # rows) = map fst (item # items)"
    by (simp add: row i)
  then show ?case by blast
qed

text \<open>
  Claim C10. The aggregator followed by \<^verbatim>\<open>count_stats\<close> returns a report in which, for
  every count \<open>c\<close>, the rows of count \<open>c\<close> stand in the order in which their resources
  were first observed in the input: their urls are a subsequence of the list of the
  resources in first-observation order (a list without repetitions, so that being a
  subsequence of it fixes the relative order). This holds for every report size.
\<close>

theorem ties_keep_first_seen_order:
  "\<exists>out. analyze_and_count (iter rs) report_size = Inr out
     \<and> (\<forall>c. subseq (map url (filter (\<lambda>row. count_r row = c) out))
                    (first_seen (map fst rs)))"
proof -
  let ?st = "foldl (\<lambda>s r. analyze_step r s) (\<lparr>total_requests = 0, total_time = 0\<rparr>, []) rs"
  have a: "analyze_log (iter rs) = Inr (fst ?st, snd ?st)"
    by (rule analyze_log_iter)
  have keys: "map fst (snd ?st) = first_seen (map fst rs)"
    by (rule keys_first_seen)
  have "well_formed (snd ?st)" by (rule well_formed_foldl) (simp add: well_formed_def)
  then have "list_all (\<lambda>(k, e). request_times e \<noteq> []) (snd ?st)"
    unfolding well_formed_def list_all_iff by auto
  from stats_loop_rows [OF this, of "fst ?st" "[]"] obtain report where
    rep: "stats_loop (fst ?st) (snd ?st) [] = Inr report" "map url report = map fst (snd ?st)"
    by auto
  let ?S = "sorted_reverse count_r report"
  obtain m where m: "slice_to ?S report_size = take m ?S"
    using slice_to_take by blast
  have out: "analyze_and_count (iter rs) report_size = Inr (take m ?S)"
    by (simp add: analyze_and_count_def a count_stats_def rep final_stats_def m case_prod_beta)
  have "subseq (map url (filter (\<lambda>row. count_r row = c) (take m ?S)))
          (first_seen (map fst rs))" for c
  proof -
    have "subseq (take m ?S) ?S"
      by (metis append_take_drop_id prefix_imp_subseq prefixI)
    then have "subseq (filter (\<lambda>row. count_r row = c) (take m ?S))
                 (filter (\<lambda>row. count_r row = c) ?S)"
      by (rule subseq_filter)
    then have "subseq (filter (\<lambda>row. count_r row = c) (take m ?S))
                 (filter (\<lambda>row. count_r row = c) report)"
      by (simp add: sorted_reverse_stable)
    moreover have "subseq (filter (\<lambda>row. count_r row = c) report) report"
      by simp
    ultimately have "subseq (filter (\<lambda>row. count_r row = c) (take m ?S)) report"
      by (rule subseq_order.trans)
    then have "subseq (map url (filter (\<lambda>row. count_r row = c) (take m ?S))) (map url report)"
      by (rule subseq_map)
    then show ?thesis by (simp add: rep keys)
  qed
  with out show ?thesis by blast
qed

subsection \<open>The record extractor\<close>

lemma split_sp_not_Nil: "split_sp s \<noteq> []"
  by (induction s) (auto split: list.split)

lemma split_sp_append:
  "CHR '' '' \<notin> set w \<Longrightarrow> split_sp (w @ s) = (w @ hd (split_sp s)) # tl (split_sp s)"
proof (induction w)
  case Nil
  show ?case using split_sp_not_Nil [of s] by simp
next
  case (Cons c w)
  then show ?case by auto
qed

text \<open>Splitting undoes joining, when no field holds a space.\<close>

lemma split_sp_join:
  "fs \<noteq> [] \<Longrightarrow> \<forall>f \<in> set fs. CHR '' '' \<notin> set f \<Longrightarrow> split_sp (join_sp fs) = fs"
proof (induction fs rule: join_sp.induct)
  case 1
  then show ?case by simp
next
  case (2 w)
  then show ?case using split_sp_append [of w "[]"] by simp
next
  case (3 w v ws)
  then have "split_sp (join_sp (v # ws)) = v # ws" by simp
  then show ?case using 3 split_sp_append [of w "CHR '' '' # join_sp (v # ws)"] by simp
qed

lemma sample_row:
  "log_parser_row float_decimal sample_line = Inr (''/api/v2/banner/25019354'', 39/100)"
  by (simp add: sample_line_def sample_fields_def log_parser_row_def float_decimal_def
      strip_def is_space_def unsigned_decimal_def digit_val_def)

text \<open>
  On the sample line, which has the documented format, the extractor returns the request
  target. Counted as whitespace-delimited tokens, the request target is the seventh
  token of that line and not the eighth: the two adjacent spaces of the format delimit
  an empty field for \<^verbatim>\<open>split(" ")\<close> and no token.
\<close>

theorem eighth_token_counterexample:
  "log_parser_row float_decimal sample_line = Inr (''/api/v2/banner/25019354'', 39/100)
   \<and> ws_tokens sample_line ! 7 \<noteq> ''/api/v2/banner/25019354''"
  by (simp add: sample_row)
     (simp add: sample_line_def sample_fields_def ws_tokens_def is_space_def)

lemma sample_line_tokens:
  "ws_tokens sample_line ! 6 = ''/api/v2/banner/25019354''
   \<and> ws_tokens sample_line ! 7 = ''HTTP/1.1'' @ [CHR 0x22]
   \<and> split_sp sample_line ! 7 = ''/api/v2/banner/25019354''"
  by (simp add: sample_line_def sample_fields_def ws_tokens_def is_space_def)

text \<open>
  Claim C6, amended. A line is the join, by single spaces, of its fields, none of which
  holds a space (a field may be empty). When there are at least eight fields and
  \<^verbatim>\<open>float\<close> accepts the last one, with value \<open>t\<close>, the extractor returns the eighth
  field as the resource and \<open>t\<close> as the elapsed time, and goes on with the next line.
\<close>

theorem extractor_fields:
  assumes "8 \<le> length fs"
    and "\<forall>f \<in> set fs. CHR '' '' \<notin> set f"
    and "float (last fs) = Some t"
  shows "log_parser_row float (join_sp fs) = Inr (fs ! 7, t)
       \<and> log_parser generator_stop float (join_sp fs # file) =
           Yield (fs ! 7, t) (log_parser generator_stop float file)"
proof -
  have "fs \<noteq> []" using assms(1) by auto
  then have "split_sp (join_sp fs) = fs" using assms(2) by (rule split_sp_join)
  then have "log_parser_row float (join_sp fs) = Inr (fs ! 7, t)"
    using assms(1,3) by (simp add: log_parser_row_def)
  then show ?thesis by simp
qed

theorem extractor_fields_witness:
  "8 \<le> length sample_fields
   \<and> list_all (\<lambda>f. CHR '' '' \<notin> set f) sample_fields
   \<and> float_decimal (last sample_fields) = Some (39/100)
   \<and> log_parser_row float_decimal (join_sp sample_fields) =
       Inr (''/api/v2/banner/25019354'', 39/100)"
proof -
  have 1: "8 \<le> length sample_fields" by (simp add: sample_fields_def)
  have 2: "\<forall>f \<in> set sample_fields. CHR '' '' \<notin> set f" by (simp add: sample_fields_def)
  have 3: "float_decimal (last sample_fields) = Some (39/100)"
    by (simp add: sample_fields_def float_decimal_def strip_def is_space_def
        unsigned_decimal_def digit_val_def)
  have 4: "sample_fields ! 7 = ''/api/v2/banner/25019354''" by (simp add: sample_fields_def)
  from extractor_fields [of sample_fields float_decimal "39/100", OF 1 2 3] 1 2 3 4
  show ?thesis by (simp add: list_all_iff)
qed

text \<open>An exception of the extractor passes through the aggregator.\<close>

lemma analyze_loop_raises:
  assumes "\<forall>l \<in> set good. \<exists>r. log_parser_row float l = Inr r"
    and "log_parser_row float line = Inl e"
  shows "analyze_loop (log_parser gs float (good @ line # rest)) st = Inl e"
  using assms
proof (induction good arbitrary: st)
  case Nil
  then show ?case by simp
next
  case (Cons l good)
  then obtain r where "log_parser_row float l = Inr r" by auto
  then show ?case using Cons by simp
qed

text \<open>
  A line whose eighth field is empty is not rejected: the extractor returns a record
  with the empty resource.
\<close>

theorem empty_resource_counterexample:
  "log_parser_row float_decimal no_target_line = Inr ([], 1/1000)"
  by (simp add: no_target_line_def log_parser_row_def float_decimal_def
      strip_def is_space_def unsigned_decimal_def digit_val_def)

text \<open>
  Claim C7, amended. A line of fewer than eight single-space-separated fields raises
  IndexError, and a line of at least eight fields whose last field \<^verbatim>\<open>float\<close> rejects
  raises ValueError. An exception raised for a line, after lines that gave records, is
  the outcome of the aggregator: the run aborts, no line is skipped. (No check is made
  on the resource field.)
\<close>

theorem malformed_rows:
  "(length (split_sp line) < 8 \<longrightarrow> log_parser_row float line = Inl IndexError)
   \<and> (8 \<le> length (split_sp line) \<and> float (last (split_sp line)) = None \<longrightarrow>
        log_parser_row float line = Inl ValueError)
   \<and> ((\<forall>l \<in> set good. \<exists>r. log_parser_row float l = Inr r)
        \<and> log_parser_row float line = Inl e \<longrightarrow>
        analyze_log (log_parser generator_stop float (good @ line # rest)) = Inl e)"
  by (simp add: log_parser_row_def analyze_log_def analyze_loop_raises)

theorem malformed_rows_witness:
  "length (split_sp short_line) < 8
   \<and> log_parser_row float_decimal short_line = Inl IndexError
   \<and> 8 \<le> length (split_sp (join_sp (butlast sample_fields)))
   \<and> float_decimal (last (split_sp (join_sp (butlast sample_fields)))) = None
   \<and> log_parser_row float_decimal (join_sp (butlast sample_fields)) = Inl ValueError
   \<and> list_all (\<lambda>l. log_parser_row float_decimal l =
                     Inr (''/api/v2/banner/25019354'', 39/100)) [sample_line]
   \<and> analyze_log (log_parser True float_decimal ([sample_line] @ short_line # [sample_line])) =
       Inl IndexError"
proof -
  have 1: "length (split_sp short_line) < 8" by (simp add: short_line_def)
  have 2: "8 \<le> length (split_sp (join_sp (butlast sample_fields)))"
    by (simp add: sample_fields_def)
  have 3: "float_decimal (last (split_sp (join_sp (butlast sample_fields)))) = None"
    by (simp add: sample_fields_def float_decimal_def strip_def is_space_def
        unsigned_decimal_def digit_val_def)
  have 4: "\<forall>l \<in> set [sample_line]. \<exists>r. log_parser_row float_decimal l = Inr r"
  proof
    fix l
    assume "l \<in> set [sample_line]"
    then have "l = sample_line" by simp
    then show "\<exists>r. log_parser_row float_decimal l = Inr r" using sample_row by blast
  qed
  have 5: "log_parser_row float_decimal short_line = Inl IndexError"
    using malformed_rows [of short_line float_decimal] 1 by blast
  have 6: "log_parser_row float_decimal (join_sp (butlast sample_fields)) = Inl ValueError"
    using malformed_rows [of "join_sp (butlast sample_fields)" float_decimal] 2 3 by blast
  have 7: "analyze_log (log_parser True float_decimal
             ([sample_line] @ short_line # [sample_line])) = Inl IndexError"
    using malformed_rows
      [of short_line float_decimal "[sample_line]" IndexError True "[sample_line]"] 4 5
    by blast
  from 1 2 3 5 6 7 show ?thesis by (simp add: sample_row)
qed

subsection \<open>The end of the source\<close>

text \<open>
  With the \<^verbatim>\<open>generator_stop\<close> semantics the generator never ends normally, whatever
  the file holds: the aggregator always ends in an exception.
\<close>

lemma log_parser_ends_in_exception:
  "\<exists>e. analyze_loop (log_parser True float ls) st = Inl e"
  by (induction ls arbitrary: st) (simp_all split: sum.split)

text \<open>
  Without it, a file whose lines all give records is aggregated to the end.
\<close>

lemma log_parser_legacy_end:
  "list_all (\<lambda>l. \<not> isl (log_parser_row float l)) ls \<Longrightarrow>
   \<exists>st'. analyze_loop (log_parser False float ls) st = Inr st'"
  by (induction ls arbitrary: st) (auto split: sum.split)

text \<open>
  Claim C8. The extractor's sequence is to end normally at the end of the source. Under
  the \<^verbatim>\<open>generator_stop\<close> semantics it does not: on the empty file the generator raises
  RuntimeError at once, and on the file of the one sample line it yields the record and
  then raises RuntimeError, which is the outcome of the aggregator.
\<close>

theorem end_of_source_raises:
  "log_parser True float_decimal [] = Raise RuntimeError
   \<and> log_parser True float_decimal [sample_line] =
       Yield (''/api/v2/banner/25019354'', 39/100) (Raise RuntimeError)
   \<and> analyze_log (log_parser True float_decimal [sample_line]) = Inl RuntimeError"
  by (simp add: analyze_log_def sample_row)

subsection \<open>The empty input\<close>

text \<open>On the empty sequence of records the aggregator does not raise.\<close>

theorem empty_input_counterexample:
  "\<not> isl (analyze_log (iter []))"
  by (simp add: analyze_log_def)

text \<open>
  Claim C9, amended. On the empty sequence of records the aggregator returns the zero
  totals and the empty map, and \<^verbatim>\<open>count_stats\<close> then returns the empty report, for
  every report size.
\<close>

theorem empty_input_empty_report:
  "analyze_log (iter []) = Inr (\<lparr>total_requests = 0, total_time = 0\<rparr>, [])
   \<and> analyze_and_count (iter []) report_size = Inr []"
  by (simp add: analyze_and_count_def analyze_log_def count_stats_def final_stats_def
      sorted_reverse_def slice_to_def)

end
